theory Spec2Isabelle
  imports Main "HOL-Library.Word"
begin

section \<open>The simplechar character device driver (simplechar.c)\<close>

text \<open>
  A shallow embedding of the driver's entry points. The C types are modelled on an LP64
  Linux target: \<open>int\<close> is a 32-bit word, \<open>size_t\<close> and \<open>unsigned long\<close> are unsigned
  64-bit words, \<open>loff_t\<close> and \<open>ssize_t\<close> are 64-bit words read as two's complement by
  \<open>sint\<close>. Conversions are written where C performs them: \<open>ucast\<close> truncates or
  zero-extends, \<open>scast\<close> sign-extends. The order \<open>\<le>\<close> on words is the unsigned one, which
  is what C uses when a \<open>loff_t\<close> meets a \<open>size_t\<close>; \<open>\<le>s\<close> and \<open><s\<close> compare signed.
  Messages written to the kernel log are not part of the model.
\<close>

type_synonym byte = "8 word"
type_synonym c_int = "32 word"
type_synonym size_t = "64 word"
type_synonym c_uint = "32 word"
type_synonym c_long = "64 word"
type_synonym ulong = "64 word"
type_synonym loff_t = "64 word"
type_synonym ssize_t = "64 word"

subsection \<open>Constants\<close>

definition BUFFER_SIZE_DEFAULT :: c_int where
  "BUFFER_SIZE_DEFAULT = 1024"

definition BUFFER_SIZE_MAX :: c_int where
  "BUFFER_SIZE_MAX = 4096"

text \<open>The error numbers come from the kernel headers (errno-base.h, errno.h), not from
  the driver: their values are the ones Linux fixes.\<close>

definition ENOMEM :: c_int where
  "ENOMEM = 12"

definition EFAULT :: c_int where
  "EFAULT = 14"

definition EINVAL :: c_int where
  "EINVAL = 22"

definition ENOSPC :: c_int where
  "ENOSPC = 28"

definition ERESTARTSYS :: c_int where
  "ERESTARTSYS = 512"

subsection \<open>The device structure\<close>

text \<open>\<open>struct simplechar_dev\<close>. The buffer is the list of its bytes. The mutex and the
  embedded \<open>cdev\<close> carry no data of the driver: the mutex is modelled by the outcome of
  \<open>mutex_lock_interruptible\<close> in each call, and by running each call as one step.\<close>

record simplechar_dev =
  buffer :: "byte list"
  buffer_len :: size_t
  buffer_size :: size_t
  open_count :: c_int
  read_count :: ulong
  write_count :: ulong

subsection \<open>User-space copies\<close>

text \<open>
  \<open>copy_to_user\<close> and \<open>copy_from_user\<close> are kernel services. User memory at the pointer
  the caller passed is the list of the bytes accessible from that address on; a copy of
  \<open>n\<close> bytes moves the first \<open>min n (accessible)\<close> bytes and returns the number of bytes
  it could not copy, so it succeeds exactly when it returns 0. On a short copy
  \<open>copy_from_user\<close> zero-fills the part of the destination it did not reach. The kernel
  side of a copy is a position in the device buffer; the driver never asks for bytes
  beyond the end of the buffer of a well-formed device, and the lists say nothing useful
  about a copy that would.
\<close>

definition copy_to_user :: "byte list \<Rightarrow> byte list \<Rightarrow> ulong \<Rightarrow> ulong \<times> byte list" where
  "copy_to_user uto kfrom n =
     (let k = min (unat n) (length uto)
      in (n - of_nat k, take k kfrom @ drop k uto))"

definition copy_from_user :: "byte list \<Rightarrow> nat \<Rightarrow> byte list \<Rightarrow> ulong \<Rightarrow> ulong \<times> byte list" where
  "copy_from_user kbuf pos ufrom n =
     (let k = min (unat n) (length ufrom)
      in (n - of_nat k,
          take pos kbuf @ take k ufrom @ replicate (unat n - k) 0 @ drop (pos + unat n) kbuf))"

subsection \<open>File operations\<close>

text \<open>What a \<open>read\<close> or \<open>write\<close> call leaves behind: the value returned, the caller's file
  position \<open>*offset\<close>, the user memory at the caller's pointer, and the device.\<close>

record io_result =
  retval :: ssize_t
  f_pos :: loff_t
  umem :: "byte list"
  dev :: simplechar_dev

definition device_open :: "simplechar_dev \<Rightarrow> c_int \<times> simplechar_dev" where
  "device_open d = (0, d\<lparr>open_count := open_count d + 1\<rparr>)"

definition device_release :: "simplechar_dev \<Rightarrow> c_int \<times> simplechar_dev" where
  "device_release d = (0, d\<lparr>open_count := open_count d - 1\<rparr>)"

text \<open>\<open>device_read\<close>. \<open>interrupted\<close> is the outcome of \<open>mutex_lock_interruptible\<close>
  (True: a signal arrived while waiting, the call returns non-zero); \<open>ubuf\<close> is the user
  memory writable at \<open>buffer\<close>.\<close>

definition device_read ::
  "bool \<Rightarrow> simplechar_dev \<Rightarrow> byte list \<Rightarrow> size_t \<Rightarrow> loff_t \<Rightarrow> io_result" where
  "device_read interrupted d ubuf len offset =
     (if interrupted then
        \<lparr>retval = scast (- ERESTARTSYS), f_pos = offset, umem = ubuf, dev = d\<rparr>
      else if buffer_len d \<le> offset then
        \<lparr>retval = scast (0 :: c_int), f_pos = offset, umem = ubuf, dev = d\<rparr>
      else
        let bytes_read = (ucast (min len (buffer_len d - offset)) :: c_int);
            (left, ubuf') = copy_to_user ubuf (drop (unat offset) (buffer d)) (scast bytes_read);
            ret = (ucast left :: c_int)
        in if ret \<noteq> 0 then
             \<lparr>retval = scast (- EFAULT), f_pos = offset, umem = ubuf', dev = d\<rparr>
           else
             \<lparr>retval = scast bytes_read, f_pos = offset + scast bytes_read, umem = ubuf',
              dev = d\<lparr>read_count := read_count d + 1\<rparr>\<rparr>)"

text \<open>\<open>device_write\<close>. \<open>ubuf\<close> is the user memory readable at \<open>buffer\<close>.\<close>

definition device_write ::
  "bool \<Rightarrow> simplechar_dev \<Rightarrow> byte list \<Rightarrow> size_t \<Rightarrow> loff_t \<Rightarrow> io_result" where
  "device_write interrupted d ubuf len offset =
     (if interrupted then
        \<lparr>retval = scast (- ERESTARTSYS), f_pos = offset, umem = ubuf, dev = d\<rparr>
      else if buffer_size d \<le> offset then
        \<lparr>retval = scast (- ENOSPC), f_pos = offset, umem = ubuf, dev = d\<rparr>
      else
        let bytes_written = (ucast (min len (buffer_size d - offset)) :: c_int);
            (left, buf') = copy_from_user (buffer d) (unat offset) ubuf (scast bytes_written);
            ret = (ucast left :: c_int)
        in if ret \<noteq> 0 then
             \<lparr>retval = scast (- EFAULT), f_pos = offset, umem = ubuf, dev = d\<lparr>buffer := buf'\<rparr>\<rparr>
           else
             let offset' = offset + scast bytes_written
             in \<lparr>retval = scast bytes_written, f_pos = offset', umem = ubuf,
                 dev = d\<lparr>buffer := buf',
                         buffer_len := (if buffer_len d < offset' then offset' else buffer_len d),
                         write_count := write_count d + 1\<rparr>\<rparr>)"

text \<open>\<open>device_ioctl\<close> accepts every command and does nothing.\<close>

definition device_ioctl :: "c_uint \<Rightarrow> ulong \<Rightarrow> c_long" where
  "device_ioctl cmd arg = 0"

subsection \<open>Module state, status report and initialisation\<close>

text \<open>The global pointer \<open>simple_dev\<close>: \<open>NULL\<close> (its static initial value, and what a
  failed \<open>kzalloc\<close> returns), pointing to a live device, or left dangling by \<open>kfree\<close>.\<close>

datatype dev_ptr = Null | Live simplechar_dev | Freed

text \<open>The module parameters and globals that the modelled functions read or write. The
  handles \<open>simple_class\<close>, \<open>simple_device\<close> and \<open>proc_entry\<close> belong to the kernel's
  registries and are not kept.\<close>

record module_state =
  buffer_size_param :: c_int
  debug_level :: c_int
  simple_dev :: dev_ptr
  major_number :: c_int

text \<open>The state in which \<open>simplechar_init\<close> starts: the module parameters as given at
  load time, every other global at its static initial value.\<close>

definition module_load :: "c_int \<Rightarrow> c_int \<Rightarrow> module_state" where
  "module_load bs dl =
     \<lparr>buffer_size_param = bs, debug_level = dl, simple_dev = Null, major_number = 0\<rparr>"

text \<open>\<open>simplechar_proc_show\<close> prints one line per value; a line is kept as its label and
  the number printed after it. It only reads the device.\<close>

definition simplechar_proc_show ::
  "module_state \<Rightarrow> simplechar_dev \<Rightarrow> c_int \<times> (string \<times> int) list" where
  "simplechar_proc_show m d =
     (0, [(''Major Number'', sint (major_number m)),
          (''Buffer Size'', uint (buffer_size d)),
          (''Current Data Length'', uint (buffer_len d)),
          (''Open Count'', sint (open_count d)),
          (''Read Operations'', uint (read_count d)),
          (''Write Operations'', uint (write_count d)),
          (''Debug Level'', sint (debug_level m))])"

text \<open>The outcomes of the kernel services \<open>simplechar_init\<close> calls, in call order:
  whether each \<open>kzalloc\<close> returned memory, the return value of \<open>alloc_chrdev_region\<close> and
  the major number it assigned, the return value of \<open>cdev_add\<close>, and for \<open>class_create\<close>
  and \<open>device_create\<close> either a valid handle (\<open>None\<close>) or the error their \<open>ERR_PTR\<close>
  carries. \<open>proc_create\<close> cannot fail the initialisation.\<close>

record kernel_env =
  kzalloc_dev_ok :: bool
  kzalloc_buffer_ok :: bool
  alloc_chrdev_region_ret :: c_int
  chrdev_major :: c_int
  cdev_add_ret :: c_int
  class_create_err :: "c_int option"
  device_create_err :: "c_int option"

definition simplechar_init :: "kernel_env \<Rightarrow> module_state \<Rightarrow> c_int \<times> module_state" where
  "simplechar_init env m =
     (if buffer_size_param m \<le>s 0 \<or> BUFFER_SIZE_MAX <s buffer_size_param m then (- EINVAL, m)
      else
        let m1 = (if debug_level m <s 0 \<or> 3 <s debug_level m then m\<lparr>debug_level := 1\<rparr> else m)
        in if \<not> kzalloc_dev_ok env then (- ENOMEM, m1\<lparr>simple_dev := Null\<rparr>)
           else if \<not> kzalloc_buffer_ok env then (- ENOMEM, m1\<lparr>simple_dev := Freed\<rparr>)
           else
             let d = \<lparr>buffer = replicate (unat (scast (buffer_size_param m1) :: size_t)) 0,
                      buffer_len = 0,
                      buffer_size = scast (buffer_size_param m1),
                      open_count = 0, read_count = 0, write_count = 0\<rparr>
             in if alloc_chrdev_region_ret env <s 0 then
                  (alloc_chrdev_region_ret env, m1\<lparr>simple_dev := Freed\<rparr>)
                else
                  let m2 = m1\<lparr>major_number := chrdev_major env\<rparr>
                  in if cdev_add_ret env <s 0 then (cdev_add_ret env, m2\<lparr>simple_dev := Freed\<rparr>)
                     else case class_create_err env of
                            Some e \<Rightarrow> (e, m2\<lparr>simple_dev := Freed\<rparr>)
                          | None \<Rightarrow>
                              (case device_create_err env of
                                 Some e \<Rightarrow> (e, m2\<lparr>simple_dev := Freed\<rparr>)
                               | None \<Rightarrow> (0, m2\<lparr>simple_dev := Live d\<rparr>)))"

text \<open>The device \<open>simplechar_init\<close> builds for the capacity \<open>bs\<close>: a zero-filled buffer
  of that many bytes, no data, all counters at zero.\<close>

definition fresh_dev :: "c_int \<Rightarrow> simplechar_dev" where
  "fresh_dev bs =
     \<lparr>buffer = replicate (unat (scast bs :: size_t)) 0, buffer_len = 0,
      buffer_size = scast bs, open_count = 0, read_count = 0, write_count = 0\<rparr>"

text \<open>Every kernel service called by \<open>simplechar_init\<close> succeeds.\<close>

definition kernel_ok :: "kernel_env \<Rightarrow> bool" where
  "kernel_ok env \<longleftrightarrow>
     kzalloc_dev_ok env \<and> kzalloc_buffer_ok env \<and> \<not> alloc_chrdev_region_ret env <s 0
     \<and> \<not> cdev_add_ret env <s 0 \<and> class_create_err env = None
     \<and> device_create_err env = None"

subsection \<open>The entry points as one step function\<close>

text \<open>The calls the kernel can make on a loaded module, through \<open>fops\<close> and
  \<open>simplechar_proc_ops\<close>, each with the arguments of the modelled function, and the
  device each call leaves.\<close>

datatype file_op =
    Open
  | Release
  | Read bool "byte list" size_t loff_t
  | Write bool "byte list" size_t loff_t
  | Ioctl c_uint ulong
  | ProcShow module_state

fun fops :: "simplechar_dev \<Rightarrow> file_op \<Rightarrow> simplechar_dev" where
  "fops d Open = snd (device_open d)"
| "fops d Release = snd (device_release d)"
| "fops d (Read interrupted ubuf len offset) = dev (device_read interrupted d ubuf len offset)"
| "fops d (Write interrupted ubuf len offset) = dev (device_write interrupted d ubuf len offset)"
| "fops d (Ioctl cmd arg) = d"
| "fops d (ProcShow m) = d"

fun is_write :: "file_op \<Rightarrow> bool" where
  "is_write (Write interrupted ubuf len offset) = True"
| "is_write _ = False"

subsection \<open>Invariants\<close>

text \<open>The capacity is the validated module parameter: positive and at most
  \<open>BUFFER_SIZE_MAX\<close>.\<close>

definition capacity_valid :: "simplechar_dev \<Rightarrow> bool" where
  "capacity_valid d \<longleftrightarrow> 0 < buffer_size d \<and> buffer_size d \<le> scast BUFFER_SIZE_MAX"

text \<open>The data length never exceeds the capacity (it is unsigned, so never negative).\<close>

definition valid_length_inv :: "simplechar_dev \<Rightarrow> bool" where
  "valid_length_inv d \<longleftrightarrow> buffer_len d \<le> buffer_size d"

text \<open>A well-formed device: both of the above, and the buffer has \<open>buffer_size\<close> bytes.\<close>

definition dev_inv :: "simplechar_dev \<Rightarrow> bool" where
  "dev_inv d \<longleftrightarrow>
     capacity_valid d \<and> valid_length_inv d \<and> length (buffer d) = unat (buffer_size d)"

subsection \<open>An example device\<close>

text \<open>A device of capacity 16 that holds the ten bytes \<open>0123456789\<close>, opened once,
  after two reads and one write.\<close>

definition scenario_dev :: simplechar_dev where
  "scenario_dev =
     \<lparr>buffer = [48, 49, 50, 51, 52, 53, 54, 55, 56, 57, 0, 0, 0, 0, 0, 0],
      buffer_len = 10, buffer_size = 16, open_count = 1, read_count = 2, write_count = 1\<rparr>"

text \<open>A kernel in which every service succeeds and the major number assigned is 240.\<close>

definition example_env :: kernel_env where
  "example_env =
     \<lparr>kzalloc_dev_ok = True, kzalloc_buffer_ok = True, alloc_chrdev_region_ret = 0,
      chrdev_major = 240, cdev_add_ret = 0, class_create_err = None,
      device_create_err = None\<rparr>"

section \<open>Machine arithmetic of the entry points\<close>

text \<open>An \<open>int\<close> holds every byte count the driver computes, as long as the capacity is
  below \<open>2 ^ 31\<close>: truncating a count to \<open>int\<close> and extending it again gives the count
  back, and the count is zero exactly when its truncation is.\<close>

lemma ucast_size_to_int: "(ucast (n :: 64 word) :: 32 word) = of_nat (unat n)"
  by (simp only: ucast_eq unat_eq_nat_uint) (simp add: word_of_int_nat)

lemma sint_of_nat_small: 
  assumes "k < 2 ^ 31" shows "sint (of_nat k :: 32 word) = int k"
proof -
  have "sint (of_nat k :: 32 word) = signed_take_bit 31 (int k)"
    by (simp add: signed_of_nat)
  also have "\<dots> = int k"
    using assms by (simp add: signed_take_bit_int_eq_self_iff)
  finally show ?thesis .
qed

lemma int_roundtrip:
  assumes "unat (n :: 64 word) < 2 ^ 31"
  shows "(scast (ucast n :: 32 word) :: 64 word) = n"
proof -
  have "sint (ucast n :: 32 word) = int (unat n)"
    using assms by (simp only: ucast_size_to_int sint_of_nat_small)
  then have "(scast (ucast n :: 32 word) :: 64 word) = word_of_int (int (unat n))"
    by (simp only: scast_eq)
  then show ?thesis by simp
qed

lemma int_zero_iff:
  assumes "unat (n :: 64 word) < 2 ^ 31"
  shows "(ucast n :: 32 word) = 0 \<longleftrightarrow> n = 0"
proof
  assume "(ucast n :: 32 word) = 0"
  then have "(scast (ucast n :: 32 word) :: 64 word) = scast (0 :: 32 word)" by simp
  then show "n = 0" using int_roundtrip [OF assms] by simp
qed simp

lemma unat_min: "unat (min (a :: 64 word) b) = min (unat a) (unat b)"
  by (simp add: min_def word_le_nat_alt)

lemma unat_left:
  assumes "k \<le> unat (n :: 64 word)"
  shows "unat (n - of_nat k) = unat n - k"
  using assms by (simp add: le_unat_uoi unat_sub_if_size)

lemma left_zero_iff:
  assumes "k \<le> unat (n :: 64 word)"
  shows "n - of_nat k = 0 \<longleftrightarrow> k = unat n"
proof -
  have "n - of_nat k = 0 \<longleftrightarrow> unat (n - of_nat k) = 0"
    by (simp add: unat_eq_0)
  also have "\<dots> \<longleftrightarrow> k = unat n"
    using assms by (auto simp: unat_left)
  finally show ?thesis .
qed

lemma chunk_bound:
  assumes "offset < (cap :: 64 word)" and "unat cap < 2 ^ 31"
  shows "unat (min len (cap - offset)) = min (unat len) (unat cap - unat offset)"
    and "unat (min len (cap - offset)) < 2 ^ 31"
proof -
  have le: "offset \<le> cap" using assms(1) by simp
  show eq: "unat (min len (cap - offset)) = min (unat len) (unat cap - unat offset)"
    by (simp add: unat_min unat_sub [OF le])
  show "unat (min len (cap - offset)) < 2 ^ 31"
    using assms(2) unfolding eq by linarith
qed

lemma device_write_locked:
  fixes d :: simplechar_dev and ubuf :: "byte list" and len :: size_t and offset :: loff_t
  assumes off: "offset < buffer_size d" and cap: "unat (buffer_size d) < 2 ^ 31"
  defines "n \<equiv> min len (buffer_size d - offset)"
  defines "k \<equiv> min (unat n) (length ubuf)"
  defines "buf' \<equiv> take (unat offset) (buffer d) @ take k ubuf @ replicate (unat n - k) 0
                    @ drop (unat offset + unat n) (buffer d)"
  shows "device_write False d ubuf len offset =
           (if k < unat n then
              \<lparr>retval = scast (- EFAULT), f_pos = offset, umem = ubuf, dev = d\<lparr>buffer := buf'\<rparr>\<rparr>
            else
              \<lparr>retval = n, f_pos = offset + n, umem = ubuf,
               dev = d\<lparr>buffer := buf',
                       buffer_len := (if buffer_len d < offset + n then offset + n else buffer_len d),
                       write_count := write_count d + 1\<rparr>\<rparr>)"
proof -
  have small: "unat n < 2 ^ 31"
    unfolding n_def by (rule chunk_bound(2) [OF off cap])
  have rt: "(scast (ucast n :: 32 word) :: 64 word) = n"
    by (rule int_roundtrip [OF small])
  have kle: "k \<le> unat n" by (simp add: k_def)
  have "unat (n - of_nat k) < 2 ^ 31"
    using small kle by (simp add: unat_left)
  then have z: "(ucast (n - of_nat k) :: 32 word) = 0 \<longleftrightarrow> k = unat n"
    by (simp only: int_zero_iff left_zero_iff [OF kle])
  have nle: "\<not> buffer_size d \<le> offset" using off by simp
  show ?thesis
    unfolding device_write_def copy_from_user_def Let_def
    using kle
    by (simp only: nle if_False rt n_def [symmetric] k_def [symmetric] buf'_def [symmetric]
                   split_conv z) auto
qed

lemma device_read_locked:
  fixes d :: simplechar_dev and ubuf :: "byte list" and len :: size_t and offset :: loff_t
  assumes off: "offset < buffer_len d" and cap: "unat (buffer_len d) < 2 ^ 31"
  defines "n \<equiv> min len (buffer_len d - offset)"
  defines "k \<equiv> min (unat n) (length ubuf)"
  defines "ubuf' \<equiv> take k (drop (unat offset) (buffer d)) @ drop k ubuf"
  shows "device_read False d ubuf len offset =
           (if k < unat n then
              \<lparr>retval = scast (- EFAULT), f_pos = offset, umem = ubuf', dev = d\<rparr>
            else
              \<lparr>retval = n, f_pos = offset + n, umem = ubuf',
               dev = d\<lparr>read_count := read_count d + 1\<rparr>\<rparr>)"
proof -
  have small: "unat n < 2 ^ 31"
    unfolding n_def by (rule chunk_bound(2) [OF off cap])
  have rt: "(scast (ucast n :: 32 word) :: 64 word) = n"
    by (rule int_roundtrip [OF small])
  have kle: "k \<le> unat n" by (simp add: k_def)
  have "unat (n - of_nat k) < 2 ^ 31"
    using small kle by (simp add: unat_left)
  then have z: "(ucast (n - of_nat k) :: 32 word) = 0 \<longleftrightarrow> k = unat n"
    by (simp only: int_zero_iff left_zero_iff [OF kle])
  have nle: "\<not> buffer_len d \<le> offset" using off by simp
  show ?thesis
    unfolding device_read_def copy_to_user_def Let_def
    using kle
    by (simp only: nle if_False rt n_def [symmetric] k_def [symmetric] ubuf'_def [symmetric]
                   split_conv z) auto
qed

lemma sint_nonneg_uint:
  assumes "0 \<le> sint (w :: 64 word)" shows "sint w = uint w"
proof -
  have "sint w < 2 ^ 63"
    using sint_lt [of w] by simp
  then have "sint w < 2 ^ 64"
    by simp
  then have "take_bit 64 (sint w) = sint w"
    using assms by (simp add: take_bit_int_eq_self)
  then show ?thesis
    using uint_sint [of w] by simp
qed

lemma unsigned_less_of_signed:
  assumes "0 \<le> sint (offset :: 64 word)" and "sint offset < uint (c :: 64 word)"
  shows "offset < c"
  using assms by (simp add: sint_nonneg_uint word_less_def)

lemma unsigned_le_of_signed:
  assumes "uint (c :: 64 word) \<le> sint (offset :: 64 word)"
  shows "c \<le> offset"
proof -
  have "0 \<le> sint offset"
    using assms uint_ge_0 [of c] by linarith
  then show ?thesis
    using assms by (simp add: sint_nonneg_uint word_le_def)
qed

lemma max_size_cast: "(scast BUFFER_SIZE_MAX :: size_t) = 4096"
  by (simp add: BUFFER_SIZE_MAX_def)

lemma capacity_valid_bound:
  assumes "capacity_valid d"
  shows "unat (buffer_size d) \<le> 4096" and "unat (buffer_size d) < 2 ^ 31" and "0 < unat (buffer_size d)"
proof -
  have "buffer_size d \<le> 4096"
    using assms by (simp only: capacity_valid_def max_size_cast)
  then show le: "unat (buffer_size d) \<le> 4096"
    by (simp add: word_le_nat_alt)
  show "unat (buffer_size d) < 2 ^ 31"
    using le by simp
  show "0 < unat (buffer_size d)"
    using assms by (simp add: capacity_valid_def word_less_nat_alt)
qed

lemma copy_from_user_ok_iff:
  "fst (copy_from_user kbuf pos ufrom n) = 0 \<longleftrightarrow> unat n \<le> length ufrom"
proof -
  have "min (unat n) (length ufrom) \<le> unat n" by simp
  from left_zero_iff [OF this] show ?thesis
    by (auto simp: copy_from_user_def Let_def)
qed

lemma copy_to_user_ok_iff:
  "fst (copy_to_user uto kfrom n) = 0 \<longleftrightarrow> unat n \<le> length uto"
proof -
  have "min (unat n) (length uto) \<le> unat n" by simp
  from left_zero_iff [OF this] show ?thesis
    by (auto simp: copy_to_user_def Let_def)
qed

lemma of_nat_chunk:
  fixes len cap offset :: "64 word"
  assumes "offset < cap" and "unat cap < 2 ^ 31"
    and "n = min (unat len) (unat cap - unat offset)"
  shows "of_nat n = min len (cap - offset)"
    and "unat offset + n \<le> unat cap"
    and "unat (offset + of_nat n) = unat offset + n"
proof -
  have u: "unat (min len (cap - offset)) = n"
    using chunk_bound(1) [OF assms(1,2)] assms(3) by simp
  show eq: "of_nat n = min len (cap - offset)"
    unfolding u [symmetric] by simp
  have "unat offset < unat cap"
    using assms(1) by (simp add: word_less_nat_alt)
  then show le: "unat offset + n \<le> unat cap"
    using assms(3) by simp
  have "unat offset + unat (of_nat n :: 64 word) < 2 ^ 64"
    using le assms(2) u eq by simp
  then show "unat (offset + of_nat n) = unat offset + n"
    using u eq by (simp add: unat_add_lem [THEN iffD1])
qed

lemma sint_small64:
  assumes "unat (w :: 64 word) < 2 ^ 31"
  shows "sint w = int (unat w)"
proof -
  have "int (unat w) < int (2 ^ 31)"
    using assms by (simp only: of_nat_less_iff)
  then have "uint w < 2 ^ 63"
    by simp
  moreover have "- (2 ^ 63) \<le> uint w"
    by (rule order_trans [of _ 0]) simp_all
  ultimately have "signed_take_bit 63 (uint w) = uint w"
    by (simp only: signed_take_bit_int_eq_self_iff)
  then show ?thesis
    using sint_uint [of w] by simp
qed

lemma uint_max: "uint (max (a :: 64 word) b) = max (uint a) (uint b)"
  by (simp add: max_def word_le_def)

lemma dev_inv_capacity:
  assumes "dev_inv d"
  shows "unat (buffer_size d) < 2 ^ 31" and "unat (buffer_len d) \<le> unat (buffer_size d)"
    and "unat (buffer_len d) < 2 ^ 31" and "length (buffer d) = unat (buffer_size d)"
proof -
  show c: "unat (buffer_size d) < 2 ^ 31"
    using assms capacity_valid_bound(2) by (simp add: dev_inv_def)
  show l: "unat (buffer_len d) \<le> unat (buffer_size d)"
    using assms by (simp add: dev_inv_def valid_length_inv_def word_le_nat_alt)
  show "unat (buffer_len d) < 2 ^ 31"
    using c l by simp
  show "length (buffer d) = unat (buffer_size d)"
    using assms by (simp add: dev_inv_def)
qed

lemma device_write_ok:
  fixes d :: simplechar_dev and ubuf :: "byte list" and len :: size_t and offset :: loff_t
  assumes off: "offset < buffer_size d" and cap: "unat (buffer_size d) < 2 ^ 31"
    and n: "n = min (unat len) (unat (buffer_size d) - unat offset)"
    and fits: "n \<le> length ubuf"
  shows "device_write False d ubuf len offset =
           \<lparr>retval = of_nat n, f_pos = offset + of_nat n, umem = ubuf,
            dev = d\<lparr>buffer := take (unat offset) (buffer d) @ take n ubuf
                                @ drop (unat offset + n) (buffer d),
                    buffer_len := max (buffer_len d) (offset + of_nat n),
                    write_count := write_count d + 1\<rparr>\<rparr>"
proof -
  have nw: "of_nat n = min len (buffer_size d - offset)"
    by (rule of_nat_chunk(1) [OF off cap n])
  have "unat (min len (buffer_size d - offset)) = n"
    using chunk_bound(1) [OF off cap, of len] n by simp
  then have un: "unat (of_nat n :: 64 word) = n"
    using nw by simp
  show ?thesis
    using fits by (auto simp: device_write_locked [OF off cap] nw [symmetric] un max_def)
qed

lemma device_read_ok:
  fixes d :: simplechar_dev and ubuf :: "byte list" and len :: size_t and offset :: loff_t
  assumes off: "offset < buffer_len d" and cap: "unat (buffer_len d) < 2 ^ 31"
    and n: "n = min (unat len) (unat (buffer_len d) - unat offset)"
    and fits: "n \<le> length ubuf"
  shows "device_read False d ubuf len offset =
           \<lparr>retval = of_nat n, f_pos = offset + of_nat n,
            umem = take n (drop (unat offset) (buffer d)) @ drop n ubuf,
            dev = d\<lparr>read_count := read_count d + 1\<rparr>\<rparr>"
proof -
  have nw: "of_nat n = min len (buffer_len d - offset)"
    by (rule of_nat_chunk(1) [OF off cap n])
  have "unat (min len (buffer_len d - offset)) = n"
    using chunk_bound(1) [OF off cap, of len] n by simp
  then have un: "unat (of_nat n :: 64 word) = n"
    using nw by simp
  show ?thesis
    using fits by (auto simp: device_read_locked [OF off cap] nw [symmetric] un)
qed

lemma signed_readings:
  fixes offset cap :: "64 word"
  assumes "unat offset + n \<le> unat cap" and "unat cap < 2 ^ 31"
    and "unat (offset + of_nat n) = unat offset + n"
  shows "sint (of_nat n :: 64 word) = int n"
    and "sint (offset + of_nat n) = sint offset + int n"
    and "uint (offset + of_nat n) = sint offset + int n"
proof -
  have n_small: "n < 2 ^ 31"
    using assms(1,2) by simp
  have "n < 2 ^ 64"
    by (rule less_trans [OF n_small]) simp
  then have un: "unat (of_nat n :: 64 word) = n"
    by (simp add: unat_of_nat)
  have "unat (of_nat n :: 64 word) < 2 ^ 31"
    using n_small un by simp
  from sint_small64 [OF this] show "sint (of_nat n :: 64 word) = int n"
    using un by simp
  have small_sum: "unat (offset + of_nat n) < 2 ^ 31"
    using assms by simp
  have small_off: "unat offset < 2 ^ 31"
    using assms(1,2) by simp
  show s2: "sint (offset + of_nat n) = sint offset + int n"
    using sint_small64 [OF small_sum] sint_small64 [OF small_off] assms(3) by simp
  show "uint (offset + of_nat n) = sint offset + int n"
    using s2 sint_small64 [OF small_sum] by simp
qed

lemma unat_max: "unat (max (a :: 64 word) b) = max (unat a) (unat b)"
  by (simp add: max_def word_le_nat_alt)

lemma device_read_eof:
  assumes "buffer_len d \<le> offset"
  shows "device_read False d ubuf len offset =
           \<lparr>retval = 0, f_pos = offset, umem = ubuf, dev = d\<rparr>"
  using assms by (simp add: device_read_def)

section \<open>Exit paths of read and write\<close>

lemma device_read_fault:
  fixes d :: simplechar_dev and ubuf :: "byte list" and len :: size_t and offset :: loff_t
  assumes off: "offset < buffer_len d" and cap: "unat (buffer_len d) < 2 ^ 31"
    and fault: "fst (copy_to_user ubuf src (min len (buffer_len d - offset))) \<noteq> 0"
  shows "retval (device_read False d ubuf len offset) = scast (- EFAULT)"
    and "f_pos (device_read False d ubuf len offset) = offset"
    and "dev (device_read False d ubuf len offset) = d"
proof -
  have short: "length ubuf < unat (min len (buffer_len d - offset))"
    using fault by (simp add: copy_to_user_ok_iff)
  show "retval (device_read False d ubuf len offset) = scast (- EFAULT)"
    using short by (simp add: device_read_locked [OF off cap])
  show "f_pos (device_read False d ubuf len offset) = offset"
    using short by (simp add: device_read_locked [OF off cap])
  show "dev (device_read False d ubuf len offset) = d"
    using short by (simp add: device_read_locked [OF off cap])
qed

lemma device_write_fault:
  fixes d :: simplechar_dev and ubuf :: "byte list" and len :: size_t and offset :: loff_t
  assumes off: "offset < buffer_size d" and cap: "unat (buffer_size d) < 2 ^ 31"
    and fault: "fst (copy_from_user kbuf pos ubuf (min len (buffer_size d - offset))) \<noteq> 0"
  shows "retval (device_write False d ubuf len offset) = scast (- EFAULT)"
    and "f_pos (device_write False d ubuf len offset) = offset"
    and "dev (device_write False d ubuf len offset)
           = d\<lparr>buffer := buffer (dev (device_write False d ubuf len offset))\<rparr>"
proof -
  have short: "length ubuf < unat (min len (buffer_size d - offset))"
    using fault by (simp add: copy_from_user_ok_iff)
  show "retval (device_write False d ubuf len offset) = scast (- EFAULT)"
    using short by (simp add: device_write_locked [OF off cap])
  show "f_pos (device_write False d ubuf len offset) = offset"
    using short by (simp add: device_write_locked [OF off cap])
  show "dev (device_write False d ubuf len offset)
           = d\<lparr>buffer := buffer (dev (device_write False d ubuf len offset))\<rparr>"
    using short by (simp add: device_write_locked [OF off cap])
qed

lemma restart_large: "unat (scast (- ERESTARTSYS) :: ssize_t) = 18446744073709551104"
  by (simp add: ERESTARTSYS_def)

lemma small_not_restart:
  assumes "unat (x :: ssize_t) < 2 ^ 31"
  shows "x \<noteq> scast (- ERESTARTSYS)"
proof
  assume "x = scast (- ERESTARTSYS)"
  then have "unat x = 18446744073709551104"
    by (simp only: restart_large)
  then show False
    using assms by simp
qed

lemma device_read_not_restart:
  fixes d :: simplechar_dev and ubuf :: "byte list" and len :: size_t and offset :: loff_t
  assumes cap: "unat (buffer_len d) < 2 ^ 31"
  shows "retval (device_read False d ubuf len offset) \<noteq> scast (- ERESTARTSYS)"
proof (cases "buffer_len d \<le> offset")
  case True
  then show ?thesis
    by (simp add: device_read_eof ERESTARTSYS_def)
next
  case False
  then have off: "offset < buffer_len d"
    by simp
  have "min len (buffer_len d - offset) \<noteq> scast (- ERESTARTSYS)"
    by (rule small_not_restart [OF chunk_bound(2) [OF off cap]])
  then show ?thesis
    by (simp add: device_read_locked [OF off cap] EFAULT_def ERESTARTSYS_def)
qed

lemma device_write_not_restart:
  fixes d :: simplechar_dev and ubuf :: "byte list" and len :: size_t and offset :: loff_t
  assumes cap: "unat (buffer_size d) < 2 ^ 31"
  shows "retval (device_write False d ubuf len offset) \<noteq> scast (- ERESTARTSYS)"
proof (cases "buffer_size d \<le> offset")
  case True
  then show ?thesis
    by (simp add: device_write_def ENOSPC_def ERESTARTSYS_def)
next
  case False
  then have off: "offset < buffer_size d"
    by simp
  have "min len (buffer_size d - offset) \<noteq> scast (- ERESTARTSYS)"
    by (rule small_not_restart [OF chunk_bound(2) [OF off cap]])
  then show ?thesis
    by (simp add: device_write_locked [OF off cap] EFAULT_def ERESTARTSYS_def)
qed

section \<open>Preservation of the invariants\<close>

lemma chunk_end_le:
  fixes len cap offset :: "64 word"
  assumes off: "offset < cap" and cap: "unat cap < 2 ^ 31"
  shows "offset + min len (cap - offset) \<le> cap"
    and "unat offset + unat (min len (cap - offset)) \<le> unat cap"
proof -
  define n where "n = min (unat len) (unat cap - unat offset)"
  have nw: "of_nat n = min len (cap - offset)"
    by (rule of_nat_chunk(1) [OF off cap n_def])
  have un: "unat (min len (cap - offset)) = n"
    using chunk_bound(1) [OF off cap, of len] n_def by simp
  have le: "unat offset + n \<le> unat cap"
    by (rule of_nat_chunk(2) [OF off cap n_def])
  have "unat (offset + of_nat n) = unat offset + n"
    by (rule of_nat_chunk(3) [OF off cap n_def])
  then show "offset + min len (cap - offset) \<le> cap"
    using le nw by (simp add: word_le_nat_alt)
  show "unat offset + unat (min len (cap - offset)) \<le> unat cap"
    using le un by simp
qed

lemma device_write_preserves:
  fixes d :: simplechar_dev and ubuf :: "byte list" and len :: size_t and offset :: loff_t
  assumes cap: "unat (buffer_size d) < 2 ^ 31" and vl: "buffer_len d \<le> buffer_size d"
  shows "buffer_size (dev (device_write interrupted d ubuf len offset)) = buffer_size d"
    and "buffer_len (dev (device_write interrupted d ubuf len offset)) \<le> buffer_size d"
    and "buffer_len d \<le> buffer_len (dev (device_write interrupted d ubuf len offset))"
    and "length (buffer d) = unat (buffer_size d) \<Longrightarrow>
           length (buffer (dev (device_write interrupted d ubuf len offset))) = length (buffer d)"
proof -
  let ?r = "device_write interrupted d ubuf len offset"
  consider (intr) "interrupted" | (full) "\<not> interrupted" "buffer_size d \<le> offset"
    | (locked) "\<not> interrupted" "offset < buffer_size d"
    by fastforce
  then have "buffer_size (dev ?r) = buffer_size d \<and> buffer_len (dev ?r) \<le> buffer_size d
      \<and> buffer_len d \<le> buffer_len (dev ?r)
      \<and> (length (buffer d) = unat (buffer_size d) \<longrightarrow> length (buffer (dev ?r)) = length (buffer d))"
  proof cases
    case intr
    then show ?thesis using vl by (simp add: device_write_def)
  next
    case full
    then show ?thesis using vl by (simp add: device_write_def)
  next
    case locked
    note e = chunk_end_le [OF locked(2) cap, of len]
    have "length (buffer d) = unat (buffer_size d) \<longrightarrow> length (buffer (dev ?r)) = length (buffer d)"
      using locked(1) e(2) by (auto simp: device_write_locked [OF locked(2) cap])
    moreover have "buffer_size (dev ?r) = buffer_size d"
      using locked(1) by (simp add: device_write_locked [OF locked(2) cap])
    moreover have "buffer_len (dev ?r) \<le> buffer_size d"
      using locked(1) e(1) vl by (simp add: device_write_locked [OF locked(2) cap])
    moreover have "buffer_len d \<le> buffer_len (dev ?r)"
      using locked(1) by (auto simp: device_write_locked [OF locked(2) cap] less_imp_le)
    ultimately show ?thesis by blast
  qed
  then show "buffer_size (dev ?r) = buffer_size d"
    and "buffer_len (dev ?r) \<le> buffer_size d"
    and "buffer_len d \<le> buffer_len (dev ?r)"
    and "length (buffer d) = unat (buffer_size d) \<Longrightarrow> length (buffer (dev ?r)) = length (buffer d)"
    by blast+
qed

lemma device_read_dev:
  "dev (device_read interrupted d ubuf len offset) = d
   \<or> dev (device_read interrupted d ubuf len offset) = d\<lparr>read_count := read_count d + 1\<rparr>"
  by (simp add: device_read_def Let_def split: prod.split)

lemma fops_not_write:
  assumes "\<not> is_write op"
  shows "buffer_len (fops d op) = buffer_len d" and "buffer_size (fops d op) = buffer_size d"
    and "buffer (fops d op) = buffer d"
proof -
  have "buffer_len (fops d op) = buffer_len d \<and> buffer_size (fops d op) = buffer_size d
        \<and> buffer (fops d op) = buffer d"
  proof (cases op)
    case (Read i u l off)
    then show ?thesis
      using device_read_dev [of i d u l off] by auto
  next
    case (Write i u l off)
    then show ?thesis using assms by simp
  qed (simp_all add: device_open_def device_release_def)
  then show "buffer_len (fops d op) = buffer_len d" and "buffer_size (fops d op) = buffer_size d"
    and "buffer (fops d op) = buffer d"
    by blast+
qed

lemma fops_valid_length:
  assumes "capacity_valid d" and "valid_length_inv d"
  shows "valid_length_inv (fops d op)" and "buffer_size (fops d op) = buffer_size d"
    and "capacity_valid (fops d op)"
proof -
  have cap: "unat (buffer_size d) < 2 ^ 31"
    by (rule capacity_valid_bound(2) [OF assms(1)])
  have vl: "buffer_len d \<le> buffer_size d"
    using assms(2) by (simp add: valid_length_inv_def)
  have "valid_length_inv (fops d op) \<and> buffer_size (fops d op) = buffer_size d"
  proof (cases "is_write op")
    case False
    then show ?thesis
      using vl by (simp add: fops_not_write valid_length_inv_def)
  next
    case True
    then obtain i u l off where "op = Write i u l off"
      by (cases op) simp_all
    then show ?thesis
      using device_write_preserves(1,2) [OF cap vl, of i u l off]
      by (simp add: valid_length_inv_def)
  qed
  then show "valid_length_inv (fops d op)" and s: "buffer_size (fops d op) = buffer_size d"
    by blast+
  show "capacity_valid (fops d op)"
    using assms(1) s by (simp add: capacity_valid_def)
qed

lemma fops_dev_inv:
  assumes "dev_inv d"
  shows "dev_inv (fops d op)"
proof -
  have cv: "capacity_valid d" and vi: "valid_length_inv d"
    and len: "length (buffer d) = unat (buffer_size d)"
    using assms by (simp_all add: dev_inv_def)
  have cap: "unat (buffer_size d) < 2 ^ 31"
    by (rule capacity_valid_bound(2) [OF cv])
  have vl: "buffer_len d \<le> buffer_size d"
    using vi by (simp add: valid_length_inv_def)
  have "length (buffer (fops d op)) = unat (buffer_size (fops d op))"
  proof (cases "is_write op")
    case False
    then show ?thesis
      using len by (simp add: fops_not_write)
  next
    case True
    then obtain i u l off where "op = Write i u l off"
      by (cases op) simp_all
    then show ?thesis
      using device_write_preserves(1) [OF cap vl, of i u l off]
        device_write_preserves(4) [OF cap vl len, of i u l off] len
      by simp
  qed
  then show ?thesis
    using fops_valid_length [OF cv vi, of op] by (simp add: dev_inv_def)
qed

lemma foldl_fops_dev_inv:
  assumes "dev_inv d"
  shows "dev_inv (foldl fops d ops)"
  using assms by (induction ops arbitrary: d) (simp_all add: fops_dev_inv)

section \<open>Initialisation\<close>

lemma param_range:
  "(\<not> (bs \<le>s 0 \<or> BUFFER_SIZE_MAX <s bs)) \<longleftrightarrow> (1 \<le> sint bs \<and> sint bs \<le> 4096)"
  by (auto simp: word_sle_eq word_sless_alt BUFFER_SIZE_MAX_def)

lemma level_range:
  "(dl <s 0 \<or> 3 <s dl) \<longleftrightarrow> (sint dl < 0 \<or> 3 < sint (dl :: c_int))"
  by (simp add: word_sless_alt)

lemma scast_param:
  assumes "1 \<le> sint (bs :: c_int)" and "sint bs \<le> 4096"
  shows "uint (scast bs :: size_t) = sint bs" and "unat (scast bs :: size_t) = nat (sint bs)"
proof -
  have "sint bs < 2 ^ 64"
    using assms(2) by simp
  then have t: "take_bit 64 (sint bs) = sint bs"
    using assms(1) by (simp add: take_bit_int_eq_self)
  have "uint (scast bs :: size_t) = uint (word_of_int (sint bs) :: size_t)"
    by (simp only: scast_eq)
  also have "\<dots> = take_bit LENGTH(64) (sint bs)"
    by (rule uint_word_of_int_eq)
  also have "\<dots> = sint bs"
    using t by simp
  finally show u: "uint (scast bs :: size_t) = sint bs" .
  show "unat (scast bs :: size_t) = nat (sint bs)"
    using u by (simp only: unat_eq_nat_uint)
qed

lemma init_invalid:
  assumes "bs \<le>s 0 \<or> BUFFER_SIZE_MAX <s bs"
  shows "simplechar_init env (module_load bs dl) = (- EINVAL, module_load bs dl)"
  using assms by (simp add: simplechar_init_def module_load_def)

lemma init_valid_cases:
  assumes "\<not> (bs \<le>s 0 \<or> BUFFER_SIZE_MAX <s bs)"
  shows "(fst (simplechar_init env (module_load bs dl)) = 0
          \<and> simple_dev (snd (simplechar_init env (module_load bs dl))) = Live (fresh_dev bs))
         \<or> (fst (simplechar_init env (module_load bs dl)) = - ENOMEM
          \<and> simple_dev (snd (simplechar_init env (module_load bs dl))) = Null)
         \<or> simple_dev (snd (simplechar_init env (module_load bs dl))) = Freed"
  using assms
  by (simp add: simplechar_init_def module_load_def Let_def fresh_dev_def split: option.split)

lemma fresh_dev_inv:
  assumes "1 \<le> sint bs" and "sint bs \<le> 4096"
  shows "dev_inv (fresh_dev bs)"
proof -
  note u = scast_param [OF assms]
  have "uint (0 :: size_t) < uint (scast bs :: size_t)"
    using u(1) assms(1) by simp
  then have pos: "0 < (scast bs :: size_t)"
    by (simp only: word_less_def)
  have "uint (scast bs :: size_t) \<le> uint (4096 :: size_t)"
    using u(1) assms(2) by simp
  then have "(scast bs :: size_t) \<le> 4096"
    by (simp only: word_le_def)
  then have "capacity_valid (fresh_dev bs)"
    using pos by (simp add: capacity_valid_def fresh_dev_def max_size_cast)
  then show ?thesis
    by (simp add: dev_inv_def valid_length_inv_def fresh_dev_def)
qed

lemma init_live:
  assumes "simple_dev (snd (simplechar_init env (module_load bs dl))) = Live d"
  shows "d = fresh_dev bs" and "1 \<le> sint bs" and "sint bs \<le> 4096" and "dev_inv d"
    and "fst (simplechar_init env (module_load bs dl)) = 0"
proof -
  have valid: "\<not> (bs \<le>s 0 \<or> BUFFER_SIZE_MAX <s bs)"
  proof
    assume "bs \<le>s 0 \<or> BUFFER_SIZE_MAX <s bs"
    from init_invalid [OF this, of env dl] assms show False
      by (simp add: module_load_def)
  qed
  then show r: "1 \<le> sint bs" "sint bs \<le> 4096"
    using param_range [of bs] by blast+
  show d: "d = fresh_dev bs"
    using init_valid_cases [OF valid, of env dl] assms by auto
  show "dev_inv d"
    unfolding d by (rule fresh_dev_inv [OF r])
  show "fst (simplechar_init env (module_load bs dl)) = 0"
    using init_valid_cases [OF valid, of env dl] assms by auto
qed

lemma init_ok:
  assumes "1 \<le> sint bs" and "sint bs \<le> 4096" and "kernel_ok env"
  shows "simplechar_init env (module_load bs dl) =
           (0, \<lparr>buffer_size_param = bs,
                debug_level = (if sint dl < 0 \<or> 3 < sint dl then 1 else dl),
                simple_dev = Live (fresh_dev bs), major_number = chrdev_major env\<rparr>)"
proof -
  have valid: "\<not> (bs \<le>s 0 \<or> BUFFER_SIZE_MAX <s bs)"
    using assms(1,2) param_range [of bs] by blast
  show ?thesis
    using valid assms(3)
    by (simp add: simplechar_init_def module_load_def Let_def fresh_dev_def kernel_ok_def
                  level_range)
qed

lemma init_level:
  assumes "\<not> (bs \<le>s 0 \<or> BUFFER_SIZE_MAX <s bs)" and "dl <s 0 \<or> 3 <s dl"
  shows "simplechar_init env (module_load bs dl) = simplechar_init env (module_load bs 1)"
proof -
  have one: "\<not> ((1 :: c_int) <s 0 \<or> 3 <s (1 :: c_int))"
    by (simp add: word_sless_alt)
  show ?thesis
    using assms one by (simp add: simplechar_init_def module_load_def Let_def)
qed

lemma init_debug_level:
  assumes "\<not> (bs \<le>s 0 \<or> BUFFER_SIZE_MAX <s bs)"
  shows "debug_level (snd (simplechar_init env (module_load bs dl)))
           = (if sint dl < 0 \<or> 3 < sint dl then 1 else dl)"
  using assms
  by (simp add: simplechar_init_def module_load_def Let_def level_range split: option.split)

lemma foldl_fops_no_write:
  assumes "\<forall>op \<in> set ops. \<not> is_write op"
  shows "buffer_len (foldl fops d ops) = buffer_len d"
  using assms by (induction ops arbitrary: d) (simp_all add: fops_not_write)

text \<open>Every device that can exist is well-formed: the one a successful initialisation
  leaves, and the one any sequence of calls makes of it.\<close>

lemma reachable_dev_inv:
  assumes "simple_dev (snd (simplechar_init env (module_load bs dl))) = Live d0"
  shows "dev_inv (foldl fops d0 ops)"
  by (rule foldl_fops_dev_inv [OF init_live(4) [OF assms]])

section \<open>Properties of the driver\<close>

text \<open>
  C1. A write at an offset \<open>0 \<le> offset < capacity\<close> that acquires the lock and whose
  copy from user space succeeds copies \<open>n = min(length, capacity - offset)\<close> bytes into the
  buffer at \<open>offset\<close>, returns \<open>n\<close>, advances the caller's file position by \<open>n\<close>, sets the
  data length to the maximum of its old value and \<open>offset + n\<close>, adds one to \<open>write_count\<close>
  (in \<open>unsigned long\<close> arithmetic) and changes nothing else. The capacity is within the
  bounds \<open>simplechar_init\<close> validated (\<open>capacity_valid\<close>), so that byte counts fit the \<open>int\<close>
  they pass through and no sum wraps around. With capacity 16 and data length 10, writing 10 bytes at offset 10 copies 6 bytes,
  returns 6 and leaves the data length at 16.
\<close>

theorem device_write_success:
  assumes cv: "capacity_valid d"
    and nonneg: "0 \<le> sint offset"
    and below: "sint offset < uint (buffer_size d)"
    and copy: "fst (copy_from_user (buffer d) (unat offset) ubuf
                      (min len (buffer_size d - offset))) = 0"
    and n: "n = min (unat len) (unat (buffer_size d) - unat offset)"
  shows "device_write False d ubuf len offset =
           \<lparr>retval = of_nat n, f_pos = offset + of_nat n, umem = ubuf,
            dev = d\<lparr>buffer := take (unat offset) (buffer d) @ take n ubuf
                                @ drop (unat offset + n) (buffer d),
                    buffer_len := max (buffer_len d) (offset + of_nat n),
                    write_count := write_count d + 1\<rparr>\<rparr>
         \<and> sint (of_nat n :: ssize_t) = int n
         \<and> sint (offset + of_nat n) = sint offset + int n
         \<and> uint (max (buffer_len d) (offset + of_nat n))
             = max (uint (buffer_len d)) (sint offset + int n)"
proof -
  have cap: "unat (buffer_size d) < 2 ^ 31"
    by (rule capacity_valid_bound(2) [OF cv])
  have off: "offset < buffer_size d"
    by (rule unsigned_less_of_signed [OF nonneg below])
  have "unat (min len (buffer_size d - offset)) = n"
    using chunk_bound(1) [OF off cap, of len] n by simp
  then have fits: "n \<le> length ubuf"
    using copy by (simp add: copy_from_user_ok_iff)
  have sum_le: "unat offset + n \<le> unat (buffer_size d)"
    by (rule of_nat_chunk(2) [OF off cap n])
  have usum: "unat (offset + of_nat n) = unat offset + n"
    by (rule of_nat_chunk(3) [OF off cap n])
  note sr = signed_readings [OF sum_le cap usum]
  have "uint (max (buffer_len d) (offset + of_nat n))
             = max (uint (buffer_len d)) (sint offset + int n)"
    by (simp only: uint_max sr(3))
  then show ?thesis
    using device_write_ok [OF off cap n fits] sr(1,2) by blast
qed

theorem device_write_success_witness:
  "capacity_valid scenario_dev
   \<and> 0 \<le> sint (10 :: loff_t) \<and> sint (10 :: loff_t) < uint (buffer_size scenario_dev)
   \<and> fst (copy_from_user (buffer scenario_dev) (unat (10 :: loff_t))
             [97, 98, 99, 100, 101, 102, 103, 104, 105, 106]
             (min 10 (buffer_size scenario_dev - 10))) = 0
   \<and> device_write False scenario_dev [97, 98, 99, 100, 101, 102, 103, 104, 105, 106] 10 10 =
         \<lparr>retval = 6, f_pos = 16, umem = [97, 98, 99, 100, 101, 102, 103, 104, 105, 106],
          dev = \<lparr>buffer = [48, 49, 50, 51, 52, 53, 54, 55, 56, 57, 97, 98, 99, 100, 101, 102],
                 buffer_len = 16, buffer_size = 16, open_count = 1, read_count = 2,
                 write_count = 2\<rparr>\<rparr>"
proof -
  have h1: "capacity_valid scenario_dev"
    by (simp add: capacity_valid_def scenario_dev_def BUFFER_SIZE_MAX_def)
  have h2: "0 \<le> sint (10 :: loff_t)"
    by simp
  have h3: "sint (10 :: loff_t) < uint (buffer_size scenario_dev)"
    by (simp add: scenario_dev_def)
  have h4: "fst (copy_from_user (buffer scenario_dev) (unat (10 :: loff_t))
             [97, 98, 99, 100, 101, 102, 103, 104, 105, 106]
             (min 10 (buffer_size scenario_dev - 10))) = 0"
    by (simp add: copy_from_user_def scenario_dev_def)
  have h5: "(6 :: nat) = min (unat (10 :: size_t)) (unat (buffer_size scenario_dev) - unat (10 :: loff_t))"
    by (simp add: scenario_dev_def)
  show ?thesis
    using h1 h2 h3 h4 device_write_success [OF h1 h2 h3 h4 h5]
    by (simp add: scenario_dev_def)
qed

text \<open>
  C2. A read at an offset \<open>0 \<le> offset < data length\<close> that acquires the lock and whose
  copy to user space succeeds copies \<open>n = min(requested length, data length - offset)\<close>
  bytes: the user memory starts with the \<open>n\<close> bytes of the buffer from \<open>offset\<close> on, the
  call returns \<open>n\<close>, the caller's file position advances by \<open>n\<close>, \<open>read_count\<close> grows by one
  (in \<open>unsigned long\<close> arithmetic) and the device is otherwise unchanged. The device is a
  well-formed one (\<open>dev_inv\<close>).
\<close>

theorem device_read_success:
  assumes inv: "dev_inv d"
    and nonneg: "0 \<le> sint offset"
    and below: "sint offset < uint (buffer_len d)"
    and copy: "fst (copy_to_user ubuf (drop (unat offset) (buffer d))
                      (min len (buffer_len d - offset))) = 0"
    and n: "n = min (unat len) (unat (buffer_len d) - unat offset)"
  shows "device_read False d ubuf len offset =
           \<lparr>retval = of_nat n, f_pos = offset + of_nat n,
            umem = take n (drop (unat offset) (buffer d)) @ drop n ubuf,
            dev = d\<lparr>read_count := read_count d + 1\<rparr>\<rparr>
         \<and> length (take n (drop (unat offset) (buffer d))) = n
         \<and> sint (of_nat n :: ssize_t) = int n
         \<and> sint (offset + of_nat n) = sint offset + int n"
proof -
  have cap: "unat (buffer_len d) < 2 ^ 31"
    by (rule dev_inv_capacity(3) [OF inv])
  have off: "offset < buffer_len d"
    by (rule unsigned_less_of_signed [OF nonneg below])
  have "unat (min len (buffer_len d - offset)) = n"
    using chunk_bound(1) [OF off cap, of len] n by simp
  then have fits: "n \<le> length ubuf"
    using copy by (simp add: copy_to_user_ok_iff)
  have sum_le: "unat offset + n \<le> unat (buffer_len d)"
    by (rule of_nat_chunk(2) [OF off cap n])
  have usum: "unat (offset + of_nat n) = unat offset + n"
    by (rule of_nat_chunk(3) [OF off cap n])
  note sr = signed_readings [OF sum_le cap usum]
  have "unat offset + n \<le> length (buffer d)"
    using sum_le dev_inv_capacity(2,4) [OF inv] by simp
  then have "length (take n (drop (unat offset) (buffer d))) = n"
    by simp
  then show ?thesis
    using device_read_ok [OF off cap n fits] sr(1,2) by blast
qed

theorem device_read_success_witness:
  "dev_inv scenario_dev
   \<and> 0 \<le> sint (4 :: loff_t) \<and> sint (4 :: loff_t) < uint (buffer_len scenario_dev)
   \<and> fst (copy_to_user (replicate 32 255) (drop (unat (4 :: loff_t)) (buffer scenario_dev))
             (min 20 (buffer_len scenario_dev - 4))) = 0
   \<and> device_read False scenario_dev (replicate 32 255) 20 4 =
         \<lparr>retval = 6, f_pos = 10, umem = [52, 53, 54, 55, 56, 57] @ replicate 26 255,
          dev = scenario_dev\<lparr>read_count := 3\<rparr>\<rparr>"
proof -
  have h1: "dev_inv scenario_dev"
    by (simp add: dev_inv_def capacity_valid_def valid_length_inv_def scenario_dev_def
                  BUFFER_SIZE_MAX_def)
  have h2: "0 \<le> sint (4 :: loff_t)"
    by simp
  have h3: "sint (4 :: loff_t) < uint (buffer_len scenario_dev)"
    by (simp add: scenario_dev_def)
  have h4: "fst (copy_to_user (replicate 32 255) (drop (unat (4 :: loff_t)) (buffer scenario_dev))
             (min 20 (buffer_len scenario_dev - 4))) = 0"
    by (simp add: copy_to_user_def scenario_dev_def)
  have h5: "(6 :: nat) = min (unat (20 :: size_t)) (unat (buffer_len scenario_dev) - unat (4 :: loff_t))"
    by (simp add: scenario_dev_def)
  have e: "drop 6 (replicate 32 (255 :: byte)) = replicate 26 255"
    by simp
  show ?thesis
    using h1 h2 h3 h4 device_read_success [OF h1 h2 h3 h4 h5]
    by (simp add: scenario_dev_def)
qed

text \<open>
  C3. Round trip. Writing a byte sequence \<open>B\<close> no longer than the capacity at offset 0,
  then reading \<open>length B\<close> bytes from offset 0 into user memory with room for them, with the
  lock acquired both times and nothing in between, returns \<open>length B\<close> from both calls and
  leaves exactly \<open>B\<close> at the start of the reader's memory. The device is a well-formed one
  (\<open>dev_inv\<close>).
\<close>

theorem write_read_roundtrip:
  assumes inv: "dev_inv d"
    and fitsB: "length B \<le> unat (buffer_size d)"
    and room: "length B \<le> length ubuf"
    and w: "w = device_write False d B (of_nat (length B)) 0"
    and r: "r = device_read False (dev w) ubuf (of_nat (length B)) 0"
  shows "retval w = of_nat (length B) \<and> retval r = of_nat (length B)
         \<and> take (length B) (umem r) = B"
proof -
  let ?L = "length B"
  have cap: "unat (buffer_size d) < 2 ^ 31"
    by (rule dev_inv_capacity(1) [OF inv])
  have pos: "0 < buffer_size d"
    using inv by (simp add: dev_inv_def capacity_valid_def)
  have uL: "unat (of_nat ?L :: 64 word) = ?L"
    by (rule le_unat_uoi [OF fitsB])
  have n: "?L = min (unat (of_nat ?L :: size_t)) (unat (buffer_size d) - unat (0 :: loff_t))"
    using uL fitsB by simp
  have wv: "w = \<lparr>retval = of_nat ?L, f_pos = 0 + of_nat ?L, umem = B,
            dev = d\<lparr>buffer := take (unat (0 :: loff_t)) (buffer d) @ take ?L B
                                @ drop (unat (0 :: loff_t) + ?L) (buffer d),
                    buffer_len := max (buffer_len d) (0 + of_nat ?L),
                    write_count := write_count d + 1\<rparr>\<rparr>"
    unfolding w by (rule device_write_ok [OF pos cap n]) simp
  have buf': "buffer (dev w) = B @ drop ?L (buffer d)"
    by (simp add: wv)
  have len': "unat (buffer_len (dev w)) = max (unat (buffer_len d)) ?L"
    by (simp add: wv unat_max uL)
  have cap': "unat (buffer_len (dev w)) < 2 ^ 31"
    using len' dev_inv_capacity(3) [OF inv] fitsB cap by simp
  have rw: "retval w = of_nat ?L"
    by (simp add: wv)
  show ?thesis
  proof (cases "buffer_len (dev w) \<le> 0")
    case True
    then have "unat (buffer_len (dev w)) = 0"
      by (simp add: word_le_nat_alt)
    then have "?L = 0"
      using len' by simp
    then show ?thesis
      using rw r device_read_eof [OF True, of ubuf "of_nat ?L"] by simp
  next
    case False
    then have off: "0 < buffer_len (dev w)"
      by (simp add: word_neq_0_conv)
    have n': "?L = min (unat (of_nat ?L :: size_t)) (unat (buffer_len (dev w)) - unat (0 :: loff_t))"
      using uL len' by simp
    have "r = \<lparr>retval = of_nat ?L, f_pos = 0 + of_nat ?L,
            umem = take ?L (drop (unat (0 :: loff_t)) (buffer (dev w))) @ drop ?L ubuf,
            dev = (dev w)\<lparr>read_count := read_count (dev w) + 1\<rparr>\<rparr>"
      unfolding r by (rule device_read_ok [OF off cap' n' room])
    then show ?thesis
      using rw buf' by simp
  qed
qed

theorem write_read_roundtrip_witness:
  "dev_inv scenario_dev
   \<and> length [104 :: byte, 101, 108, 108, 111] \<le> unat (buffer_size scenario_dev)
   \<and> length [104 :: byte, 101, 108, 108, 111] \<le> length (replicate 8 (0 :: byte))
   \<and> retval (device_write False scenario_dev [104, 101, 108, 108, 111] 5 0) = 5
   \<and> umem (device_read False
              (dev (device_write False scenario_dev [104, 101, 108, 108, 111] 5 0))
              (replicate 8 0) 5 0) = [104, 101, 108, 108, 111, 0, 0, 0]
   \<and> take 5 (umem (device_read False
              (dev (device_write False scenario_dev [104, 101, 108, 108, 111] 5 0))
              (replicate 8 0) 5 0)) = [104, 101, 108, 108, 111]"
proof -
  have h1: "dev_inv scenario_dev"
    by (simp add: dev_inv_def capacity_valid_def valid_length_inv_def scenario_dev_def
                  BUFFER_SIZE_MAX_def)
  have h2: "length [104 :: byte, 101, 108, 108, 111] \<le> unat (buffer_size scenario_dev)"
    by (simp add: scenario_dev_def)
  have h3: "length [104 :: byte, 101, 108, 108, 111] \<le> length (replicate 8 (0 :: byte))"
    by simp
  note t = write_read_roundtrip [OF h1 h2 h3 refl refl]
  have e: "umem (device_read False
              (dev (device_write False scenario_dev [104, 101, 108, 108, 111] 5 0))
              (replicate 8 0) 5 0) = [104, 101, 108, 108, 111, 0, 0, 0]"
    by (simp add: device_read_def device_write_def copy_to_user_def copy_from_user_def
                  scenario_dev_def Let_def numeral_3_eq_3)
  show ?thesis
    using h1 h2 h3 t e by simp
qed

text \<open>
  C4. Invariant \<open>0 \<le> data length \<le> capacity\<close>. The device that a successful
  \<open>simplechar_init\<close> leaves has data length 0 and a capacity within the validated bounds,
  and the invariant holds after any sequence of calls on it. Each entry point (open,
  release, read, write, ioctl, and the status report, which only reads) preserves the
  invariant from every device whose capacity is within the validated bounds, whatever the
  lock outcome, the arguments and the outcome of the user-space copy; the capacity itself
  stays within its bounds.
\<close>

theorem valid_length_invariant:
  "(simple_dev (snd (simplechar_init env (module_load bs dl))) = Live d0
      \<longrightarrow> buffer_len d0 = 0 \<and> capacity_valid d0 \<and> valid_length_inv d0
          \<and> valid_length_inv (foldl fops d0 ops))
   \<and> (capacity_valid d \<and> valid_length_inv d
      \<longrightarrow> valid_length_inv (snd (device_open d))
          \<and> valid_length_inv (snd (device_release d))
          \<and> valid_length_inv (dev (device_read interrupted d ubuf len offset))
          \<and> valid_length_inv (dev (device_write interrupted d ubuf len offset))
          \<and> valid_length_inv (fops d op)
          \<and> capacity_valid (fops d op))"
proof (intro conjI impI)
  assume live: "simple_dev (snd (simplechar_init env (module_load bs dl))) = Live d0"
  note i = init_live [OF live]
  show "buffer_len d0 = 0"
    by (simp add: i(1) fresh_dev_def)
  show "capacity_valid d0" and "valid_length_inv d0"
    using i(4) by (simp_all add: dev_inv_def)
  show "valid_length_inv (foldl fops d0 ops)"
    using foldl_fops_dev_inv [OF i(4), of ops] by (simp add: dev_inv_def)
next
  assume a: "capacity_valid d \<and> valid_length_inv d"
  then have cv: "capacity_valid d" and vi: "valid_length_inv d"
    by blast+
  show "valid_length_inv (snd (device_open d))"
    using fops_valid_length(1) [OF cv vi, of Open] by simp
  show "valid_length_inv (snd (device_release d))"
    using fops_valid_length(1) [OF cv vi, of Release] by simp
  show "valid_length_inv (dev (device_read interrupted d ubuf len offset))"
    using fops_valid_length(1) [OF cv vi, of "Read interrupted ubuf len offset"] by simp
  show "valid_length_inv (dev (device_write interrupted d ubuf len offset))"
    using fops_valid_length(1) [OF cv vi, of "Write interrupted ubuf len offset"] by simp
  show "valid_length_inv (fops d op)"
    by (rule fops_valid_length(1) [OF cv vi])
  show "capacity_valid (fops d op)"
    by (rule fops_valid_length(3) [OF cv vi])
qed

theorem valid_length_invariant_witness:
  "simple_dev (snd (simplechar_init example_env (module_load 16 1))) = Live (fresh_dev 16)
   \<and> buffer_len (fresh_dev 16) = 0
   \<and> valid_length_inv (foldl fops (fresh_dev 16)
         [Open, Write False [48, 49, 50, 51, 52, 53, 54, 55, 56, 57] 10 0,
          Read False (replicate 20 0) 20 0,
          Write False [97, 98, 99, 100, 101, 102, 103, 104, 105, 106] 10 10, Release])
   \<and> (capacity_valid scenario_dev \<and> valid_length_inv scenario_dev)
   \<and> valid_length_inv (dev (device_write False scenario_dev
                                [97, 98, 99, 100, 101, 102, 103, 104, 105, 106] 10 10))
   \<and> buffer_len (dev (device_write False scenario_dev
                                [97, 98, 99, 100, 101, 102, 103, 104, 105, 106] 10 10)) = 16
   \<and> valid_length_inv (dev (device_write False scenario_dev [1, 2] 5 2))
   \<and> valid_length_inv (dev (device_read True scenario_dev [] 5 2))"
proof -
  have h1: "simple_dev (snd (simplechar_init example_env (module_load 16 1))) = Live (fresh_dev 16)"
    by (simp add: simplechar_init_def module_load_def example_env_def fresh_dev_def Let_def
                  BUFFER_SIZE_MAX_def word_sle_eq word_sless_alt)
  have h2: "capacity_valid scenario_dev \<and> valid_length_inv scenario_dev"
    by (simp add: capacity_valid_def valid_length_inv_def scenario_dev_def BUFFER_SIZE_MAX_def)
  have e: "buffer_len (dev (device_write False scenario_dev
                                [97, 98, 99, 100, 101, 102, 103, 104, 105, 106] 10 10)) = 16"
    by (simp add: device_write_def copy_from_user_def scenario_dev_def Let_def)
  note t1 = valid_length_invariant [of example_env 16 1 "fresh_dev 16"
         "[Open, Write False [48, 49, 50, 51, 52, 53, 54, 55, 56, 57] 10 0,
          Read False (replicate 20 0) 20 0,
          Write False [97, 98, 99, 100, 101, 102, 103, 104, 105, 106] 10 10, Release]"
         scenario_dev False "[97, 98, 99, 100, 101, 102, 103, 104, 105, 106]" 10 10
         "Write False [1, 2] 5 2"]
  note t2 = valid_length_invariant [of example_env 16 1 "fresh_dev 16" "[]"
         scenario_dev True "[]" 5 2 "Write False [1, 2] 5 2"]
  have f: "fops scenario_dev (Write False [1, 2] 5 2)
            = dev (device_write False scenario_dev [1, 2] 5 2)"
    by simp
  show ?thesis
    using h1 h2 e t1 t2 unfolding f by blast
qed

text \<open>
  C5. A write at an offset \<open>offset \<ge> capacity\<close> that acquires the lock returns \<open>-ENOSPC\<close>
  (\<open>-28\<close>), and leaves the device (buffer, data length, both counters, open count), the
  caller's file position and the user memory as they were.
\<close>

theorem device_write_beyond_capacity:
  assumes "uint (buffer_size d) \<le> sint offset"
  shows "device_write False d ubuf len offset
           = \<lparr>retval = scast (- ENOSPC), f_pos = offset, umem = ubuf, dev = d\<rparr>
         \<and> sint (scast (- ENOSPC) :: ssize_t) = - 28"
proof -
  have "buffer_size d \<le> offset"
    by (rule unsigned_le_of_signed [OF assms])
  then show ?thesis
    by (simp add: device_write_def ENOSPC_def)
qed

theorem device_write_beyond_capacity_witness:
  "uint (buffer_size scenario_dev) \<le> sint (16 :: loff_t)
   \<and> device_write False scenario_dev [1, 2, 3] 3 16
       = \<lparr>retval = - 28, f_pos = 16, umem = [1, 2, 3], dev = scenario_dev\<rparr>"
  using device_write_beyond_capacity [of scenario_dev 16 "[1, 2, 3]" 3]
  by (simp add: ENOSPC_def scenario_dev_def)

text \<open>
  C6. A read at an offset \<open>offset \<ge> data length\<close> that acquires the lock returns 0,
  whatever length is requested, and leaves the device, the caller's file position and the
  user memory as they were. In particular, on the device a successful \<open>simplechar_init\<close>
  built, after any calls none of which is a write, every read that acquires the lock
  returns 0, at every offset.
\<close>

theorem read_at_end_of_data:
  "(uint (buffer_len d) \<le> sint offset
      \<longrightarrow> device_read False d ubuf len offset
            = \<lparr>retval = 0, f_pos = offset, umem = ubuf, dev = d\<rparr>)
   \<and> (simple_dev (snd (simplechar_init env (module_load bs dl))) = Live d0
        \<and> (\<forall>op \<in> set ops. \<not> is_write op)
      \<longrightarrow> device_read False (foldl fops d0 ops) ubuf len offset
            = \<lparr>retval = 0, f_pos = offset, umem = ubuf, dev = foldl fops d0 ops\<rparr>)"
proof (intro conjI impI)
  assume "uint (buffer_len d) \<le> sint offset"
  then have "buffer_len d \<le> offset"
    by (rule unsigned_le_of_signed)
  then show "device_read False d ubuf len offset
            = \<lparr>retval = 0, f_pos = offset, umem = ubuf, dev = d\<rparr>"
    by (rule device_read_eof)
next
  assume a: "simple_dev (snd (simplechar_init env (module_load bs dl))) = Live d0
        \<and> (\<forall>op \<in> set ops. \<not> is_write op)"
  then have "buffer_len d0 = 0"
    using init_live(1) [of env bs dl d0] by (simp add: fresh_dev_def)
  then have "buffer_len (foldl fops d0 ops) = 0"
    using a foldl_fops_no_write [of ops d0] by simp
  then have "buffer_len (foldl fops d0 ops) \<le> offset"
    by simp
  then show "device_read False (foldl fops d0 ops) ubuf len offset
            = \<lparr>retval = 0, f_pos = offset, umem = ubuf, dev = foldl fops d0 ops\<rparr>"
    by (rule device_read_eof)
qed

theorem read_at_end_of_data_witness:
  "uint (buffer_len scenario_dev) \<le> sint (10 :: loff_t)
   \<and> device_read False scenario_dev [7, 7, 7, 7, 7] 5 10
        = \<lparr>retval = 0, f_pos = 10, umem = [7, 7, 7, 7, 7], dev = scenario_dev\<rparr>
   \<and> simple_dev (snd (simplechar_init example_env (module_load 16 1))) = Live (fresh_dev 16)
   \<and> filter is_write [Open, Read False [0, 0] 2 0, ProcShow (module_load 16 1), Release] = []
   \<and> retval (device_read False
        (foldl fops (fresh_dev 16) [Open, Read False [0, 0] 2 0, ProcShow (module_load 16 1), Release])
        [7, 7, 7, 7, 7] 5 0) = 0"
proof -
  have h1: "uint (buffer_len scenario_dev) \<le> sint (10 :: loff_t)"
    by (simp add: scenario_dev_def)
  have h2: "simple_dev (snd (simplechar_init example_env (module_load 16 1))) = Live (fresh_dev 16)"
    by (simp add: simplechar_init_def module_load_def example_env_def fresh_dev_def Let_def
                  BUFFER_SIZE_MAX_def word_sle_eq word_sless_alt)
  have h3: "\<forall>op \<in> set [Open, Read False [0, 0] 2 0, ProcShow (module_load 16 1), Release].
              \<not> is_write op"
    by simp
  note t1 = read_at_end_of_data [of scenario_dev 10 "[7, 7, 7, 7, 7]" 5 example_env 16 1
              "fresh_dev 16" "[]"]
  note t2 = read_at_end_of_data [of scenario_dev 0 "[7, 7, 7, 7, 7]" 5 example_env 16 1
              "fresh_dev 16" "[Open, Read False [0, 0] 2 0, ProcShow (module_load 16 1), Release]"]
  have a: "device_read False scenario_dev [7, 7, 7, 7, 7] 5 10
        = \<lparr>retval = 0, f_pos = 10, umem = [7, 7, 7, 7, 7], dev = scenario_dev\<rparr>"
    using t1 h1 by blast
  have b: "retval (device_read False
        (foldl fops (fresh_dev 16) [Open, Read False [0, 0] 2 0, ProcShow (module_load 16 1), Release])
        [7, 7, 7, 7, 7] 5 0) = 0"
    using t2 h2 h3 by simp
  have h3': "filter is_write [Open, Read False [0, 0] 2 0, ProcShow (module_load 16 1), Release] = []"
    by simp
  show ?thesis
    using h1 h2 h3' a b by blast
qed

text \<open>
  C7. A read or a write that acquires the lock, reaches its user-space copy and whose copy
  fails (\<open>copy_to_user\<close>, \<open>copy_from_user\<close> return non-zero) returns \<open>-EFAULT\<close> (\<open>-14\<close>) and
  leaves the caller's file position, \<open>read_count\<close>, \<open>write_count\<close> and the data length as
  they were; a failed read leaves the whole device unchanged, a failed write may have
  changed buffer bytes only. The device is a well-formed one (\<open>dev_inv\<close>).
\<close>

theorem copy_fault_no_progress:
  "(dev_inv d \<and> offset < buffer_len d
      \<and> fst (copy_to_user ubuf (drop (unat offset) (buffer d))
                (min len (buffer_len d - offset))) \<noteq> 0
    \<longrightarrow> retval (device_read False d ubuf len offset) = scast (- EFAULT)
        \<and> f_pos (device_read False d ubuf len offset) = offset
        \<and> dev (device_read False d ubuf len offset) = d)
   \<and> (dev_inv d \<and> offset < buffer_size d
        \<and> fst (copy_from_user (buffer d) (unat offset) ubuf
                  (min len (buffer_size d - offset))) \<noteq> 0
      \<longrightarrow> retval (device_write False d ubuf len offset) = scast (- EFAULT)
          \<and> f_pos (device_write False d ubuf len offset) = offset
          \<and> read_count (dev (device_write False d ubuf len offset)) = read_count d
          \<and> write_count (dev (device_write False d ubuf len offset)) = write_count d
          \<and> buffer_len (dev (device_write False d ubuf len offset)) = buffer_len d
          \<and> buffer_size (dev (device_write False d ubuf len offset)) = buffer_size d
          \<and> open_count (dev (device_write False d ubuf len offset)) = open_count d)
   \<and> sint (scast (- EFAULT) :: ssize_t) = - 14"
proof (intro conjI impI)
  assume a: "dev_inv d \<and> offset < buffer_len d
      \<and> fst (copy_to_user ubuf (drop (unat offset) (buffer d))
                (min len (buffer_len d - offset))) \<noteq> 0"
  then have cap: "unat (buffer_len d) < 2 ^ 31"
    using dev_inv_capacity(3) by blast
  from a have off: "offset < buffer_len d" by blast
  from a have fault: "fst (copy_to_user ubuf (drop (unat offset) (buffer d))
                (min len (buffer_len d - offset))) \<noteq> 0" by blast
  show "retval (device_read False d ubuf len offset) = scast (- EFAULT)"
    by (rule device_read_fault(1) [OF off cap fault])
  show "f_pos (device_read False d ubuf len offset) = offset"
    by (rule device_read_fault(2) [OF off cap fault])
  show "dev (device_read False d ubuf len offset) = d"
    by (rule device_read_fault(3) [OF off cap fault])
next
  assume a: "dev_inv d \<and> offset < buffer_size d
        \<and> fst (copy_from_user (buffer d) (unat offset) ubuf
                  (min len (buffer_size d - offset))) \<noteq> 0"
  then have cap: "unat (buffer_size d) < 2 ^ 31"
    using dev_inv_capacity(1) by blast
  from a have off: "offset < buffer_size d" by blast
  from a have fault: "fst (copy_from_user (buffer d) (unat offset) ubuf
                  (min len (buffer_size d - offset))) \<noteq> 0" by blast
  note f = device_write_fault [OF off cap fault]
  show "retval (device_write False d ubuf len offset) = scast (- EFAULT)"
    by (rule f(1))
  show "f_pos (device_write False d ubuf len offset) = offset"
    by (rule f(2))
  show "read_count (dev (device_write False d ubuf len offset)) = read_count d"
    by (subst f(3)) simp
  show "write_count (dev (device_write False d ubuf len offset)) = write_count d"
    by (subst f(3)) simp
  show "buffer_len (dev (device_write False d ubuf len offset)) = buffer_len d"
    by (subst f(3)) simp
  show "buffer_size (dev (device_write False d ubuf len offset)) = buffer_size d"
    by (subst f(3)) simp
  show "open_count (dev (device_write False d ubuf len offset)) = open_count d"
    by (subst f(3)) simp
next
  show "sint (scast (- EFAULT) :: ssize_t) = - 14"
    by (simp add: EFAULT_def)
qed

theorem copy_fault_no_progress_witness:
  "(dev_inv scenario_dev \<and> (2 :: loff_t) < buffer_len scenario_dev
      \<and> fst (copy_to_user [0, 0, 0] (drop (unat (2 :: loff_t)) (buffer scenario_dev))
                (min 5 (buffer_len scenario_dev - 2))) \<noteq> 0)
   \<and> retval (device_read False scenario_dev [0, 0, 0] 5 2) = - 14
   \<and> f_pos (device_read False scenario_dev [0, 0, 0] 5 2) = 2
   \<and> dev (device_read False scenario_dev [0, 0, 0] 5 2) = scenario_dev
   \<and> (dev_inv scenario_dev \<and> (2 :: loff_t) < buffer_size scenario_dev
      \<and> fst (copy_from_user (buffer scenario_dev) (unat (2 :: loff_t)) [0, 0, 0]
                (min 5 (buffer_size scenario_dev - 2))) \<noteq> 0)
   \<and> retval (device_write False scenario_dev [0, 0, 0] 5 2) = - 14
   \<and> f_pos (device_write False scenario_dev [0, 0, 0] 5 2) = 2
   \<and> buffer_len (dev (device_write False scenario_dev [0, 0, 0] 5 2)) = 10
   \<and> write_count (dev (device_write False scenario_dev [0, 0, 0] 5 2)) = 1"
proof -
  have h1: "dev_inv scenario_dev"
    by (simp add: dev_inv_def capacity_valid_def valid_length_inv_def scenario_dev_def
                  BUFFER_SIZE_MAX_def)
  have h2: "(2 :: loff_t) < buffer_len scenario_dev" "(2 :: loff_t) < buffer_size scenario_dev"
    by (simp_all add: scenario_dev_def)
  have h3: "fst (copy_to_user [0, 0, 0] (drop (unat (2 :: loff_t)) (buffer scenario_dev))
                (min 5 (buffer_len scenario_dev - 2))) \<noteq> 0"
    by (simp add: copy_to_user_def scenario_dev_def)
  have h4: "fst (copy_from_user (buffer scenario_dev) (unat (2 :: loff_t)) [0, 0, 0]
                (min 5 (buffer_size scenario_dev - 2))) \<noteq> 0"
    by (simp add: copy_from_user_def scenario_dev_def)
  note t = copy_fault_no_progress [of scenario_dev 2 "[0, 0, 0]" 5]
  show ?thesis
    using t h1 h2 h3 h4 by (simp add: EFAULT_def scenario_dev_def)
qed

text \<open>
  C8. A read or a write interrupted while waiting for the lock returns \<open>-ERESTARTSYS\<close>
  (\<open>-512\<close>) and leaves the device, the caller's file position and the user memory as they
  were. Conversely, on a well-formed device (\<open>dev_inv\<close>) a call that acquires the lock
  never returns \<open>-ERESTARTSYS\<close>.
\<close>

theorem interrupted_iff_restart:
  "device_read True d ubuf len offset
     = \<lparr>retval = scast (- ERESTARTSYS), f_pos = offset, umem = ubuf, dev = d\<rparr>
   \<and> device_write True d ubuf len offset
     = \<lparr>retval = scast (- ERESTARTSYS), f_pos = offset, umem = ubuf, dev = d\<rparr>
   \<and> sint (scast (- ERESTARTSYS) :: ssize_t) = - 512
   \<and> (dev_inv d \<longrightarrow>
        retval (device_read False d ubuf len offset) \<noteq> scast (- ERESTARTSYS)
        \<and> retval (device_write False d ubuf len offset) \<noteq> scast (- ERESTARTSYS))"
proof (intro conjI impI)
  show "device_read True d ubuf len offset
     = \<lparr>retval = scast (- ERESTARTSYS), f_pos = offset, umem = ubuf, dev = d\<rparr>"
    by (simp add: device_read_def)
  show "device_write True d ubuf len offset
     = \<lparr>retval = scast (- ERESTARTSYS), f_pos = offset, umem = ubuf, dev = d\<rparr>"
    by (simp add: device_write_def)
  show "sint (scast (- ERESTARTSYS) :: ssize_t) = - 512"
    by (simp add: ERESTARTSYS_def)
next
  assume inv: "dev_inv d"
  show "retval (device_read False d ubuf len offset) \<noteq> scast (- ERESTARTSYS)"
    by (rule device_read_not_restart [OF dev_inv_capacity(3) [OF inv]])
next
  assume inv: "dev_inv d"
  show "retval (device_write False d ubuf len offset) \<noteq> scast (- ERESTARTSYS)"
    by (rule device_write_not_restart [OF dev_inv_capacity(1) [OF inv]])
qed

theorem interrupted_iff_restart_witness:
  "dev_inv scenario_dev
   \<and> device_read True scenario_dev [0, 0, 0] 3 2
       = \<lparr>retval = - 512, f_pos = 2, umem = [0, 0, 0], dev = scenario_dev\<rparr>
   \<and> device_write True scenario_dev [7, 7, 7] 3 2
       = \<lparr>retval = - 512, f_pos = 2, umem = [7, 7, 7], dev = scenario_dev\<rparr>
   \<and> retval (device_read False scenario_dev [0, 0, 0] 3 2) \<noteq> - 512
   \<and> retval (device_write False scenario_dev [7, 7, 7] 3 2) \<noteq> - 512"
proof -
  have h1: "dev_inv scenario_dev"
    by (simp add: dev_inv_def capacity_valid_def valid_length_inv_def scenario_dev_def
                  BUFFER_SIZE_MAX_def)
  show ?thesis
    using h1 interrupted_iff_restart [of scenario_dev "[0, 0, 0]" 3 2]
      interrupted_iff_restart [of scenario_dev "[7, 7, 7]" 3 2]
    by (simp add: ERESTARTSYS_def)
qed

text \<open>
  C9. Parameter validation in \<open>simplechar_init\<close>, started from the state the module is
  loaded in. It returns \<open>-EINVAL\<close> with \<open>simple_dev\<close> still \<open>NULL\<close> (nothing was allocated)
  exactly when the capacity parameter is below 1 or above 4096, and then leaves the module
  state untouched. With a capacity in range, a verbosity outside \<open>[0, 3]\<close> makes the
  initialisation run exactly as with verbosity 1, and the verbosity it leaves is 1 (the
  given one when that is in range), whatever the kernel services return; when every kernel
  service succeeds it returns 0 with a live device of the requested capacity.
\<close>

theorem config_validation:
  "((fst (simplechar_init env (module_load bs dl)) = - EINVAL
       \<and> simple_dev (snd (simplechar_init env (module_load bs dl))) = Null)
      \<longleftrightarrow> (sint bs < 1 \<or> 4096 < sint bs))
   \<and> (sint bs < 1 \<or> 4096 < sint bs
        \<longrightarrow> simplechar_init env (module_load bs dl) = (- EINVAL, module_load bs dl))
   \<and> (1 \<le> sint bs \<and> sint bs \<le> 4096 \<and> (sint dl < 0 \<or> 3 < sint dl)
        \<longrightarrow> simplechar_init env (module_load bs dl) = simplechar_init env (module_load bs 1))
   \<and> (1 \<le> sint bs \<and> sint bs \<le> 4096
        \<longrightarrow> debug_level (snd (simplechar_init env (module_load bs dl)))
              = (if sint dl < 0 \<or> 3 < sint dl then 1 else dl))
   \<and> (1 \<le> sint bs \<and> sint bs \<le> 4096 \<and> kernel_ok env
        \<longrightarrow> simplechar_init env (module_load bs dl) =
              (0, \<lparr>buffer_size_param = bs,
                   debug_level = (if sint dl < 0 \<or> 3 < sint dl then 1 else dl),
                   simple_dev = Live (fresh_dev bs), major_number = chrdev_major env\<rparr>))"
proof -
  have invalid: "bs \<le>s 0 \<or> BUFFER_SIZE_MAX <s bs" if "sint bs < 1 \<or> 4096 < sint bs"
    using that param_range [of bs] by linarith
  have valid: "\<not> (bs \<le>s 0 \<or> BUFFER_SIZE_MAX <s bs)" if "1 \<le> sint bs" "sint bs \<le> 4096"
    using that param_range [of bs] by blast
  have c2: "sint bs < 1 \<or> 4096 < sint bs
        \<longrightarrow> simplechar_init env (module_load bs dl) = (- EINVAL, module_load bs dl)"
    using invalid init_invalid by blast
  have c1: "(fst (simplechar_init env (module_load bs dl)) = - EINVAL
       \<and> simple_dev (snd (simplechar_init env (module_load bs dl))) = Null)
      \<longleftrightarrow> (sint bs < 1 \<or> 4096 < sint bs)"
  proof
    assume a: "fst (simplechar_init env (module_load bs dl)) = - EINVAL
       \<and> simple_dev (snd (simplechar_init env (module_load bs dl))) = Null"
    show "sint bs < 1 \<or> 4096 < sint bs"
    proof (rule ccontr)
      assume "\<not> (sint bs < 1 \<or> 4096 < sint bs)"
      then have "\<not> (bs \<le>s 0 \<or> BUFFER_SIZE_MAX <s bs)"
        using valid by linarith
      from init_valid_cases [OF this, of env dl] a show False
        by (auto simp: EINVAL_def ENOMEM_def)
    qed
  next
    assume "sint bs < 1 \<or> 4096 < sint bs"
    then have "simplechar_init env (module_load bs dl) = (- EINVAL, module_load bs dl)"
      using c2 by blast
    then show "fst (simplechar_init env (module_load bs dl)) = - EINVAL
       \<and> simple_dev (snd (simplechar_init env (module_load bs dl))) = Null"
      by (simp add: module_load_def)
  qed
  have c3: "1 \<le> sint bs \<and> sint bs \<le> 4096 \<and> (sint dl < 0 \<or> 3 < sint dl)
        \<longrightarrow> simplechar_init env (module_load bs dl) = simplechar_init env (module_load bs 1)"
  proof
    assume a: "1 \<le> sint bs \<and> sint bs \<le> 4096 \<and> (sint dl < 0 \<or> 3 < sint dl)"
    then have v: "\<not> (bs \<le>s 0 \<or> BUFFER_SIZE_MAX <s bs)"
      using valid by blast
    from a have "dl <s 0 \<or> 3 <s dl"
      using level_range [of dl] by blast
    with v show "simplechar_init env (module_load bs dl) = simplechar_init env (module_load bs 1)"
      by (rule init_level)
  qed
  have c4: "1 \<le> sint bs \<and> sint bs \<le> 4096 \<and> kernel_ok env
        \<longrightarrow> simplechar_init env (module_load bs dl) =
              (0, \<lparr>buffer_size_param = bs,
                   debug_level = (if sint dl < 0 \<or> 3 < sint dl then 1 else dl),
                   simple_dev = Live (fresh_dev bs), major_number = chrdev_major env\<rparr>)"
    using init_ok [of bs env dl] by blast
  have c5: "1 \<le> sint bs \<and> sint bs \<le> 4096
        \<longrightarrow> debug_level (snd (simplechar_init env (module_load bs dl)))
              = (if sint dl < 0 \<or> 3 < sint dl then 1 else dl)"
    using valid init_debug_level [of bs env dl] by blast
  show ?thesis
    using c1 c2 c3 c4 c5 by blast
qed

theorem config_validation_witness:
  "(sint (0 :: c_int) < 1 \<or> 4096 < sint (0 :: c_int))
   \<and> simplechar_init example_env (module_load 0 9) = (- 22, module_load 0 9)
   \<and> simple_dev (snd (simplechar_init example_env (module_load 0 9))) = Null
   \<and> (1 \<le> sint (16 :: c_int) \<and> sint (16 :: c_int) \<le> 4096
        \<and> (sint (9 :: c_int) < 0 \<or> 3 < sint (9 :: c_int)) \<and> kernel_ok example_env)
   \<and> simplechar_init example_env (module_load 16 9)
       = simplechar_init example_env (module_load 16 1)
   \<and> simplechar_init example_env (module_load 16 9)
       = (0, \<lparr>buffer_size_param = 16, debug_level = 1,
              simple_dev = Live \<lparr>buffer = replicate 16 0, buffer_len = 0, buffer_size = 16,
                                 open_count = 0, read_count = 0, write_count = 0\<rparr>,
              major_number = 240\<rparr>)"
proof -
  have k: "kernel_ok example_env"
    by (simp add: kernel_ok_def example_env_def)
  have h0: "sint (0 :: c_int) < 1 \<or> 4096 < sint (0 :: c_int)"
    by simp
  have h16: "1 \<le> sint (16 :: c_int) \<and> sint (16 :: c_int) \<le> 4096
             \<and> (sint (9 :: c_int) < 0 \<or> 3 < sint (9 :: c_int))"
    by simp
  note t0 = config_validation [of example_env 0 9]
  note t16 = config_validation [of example_env 16 9]
  have a: "simplechar_init example_env (module_load 0 9) = (- EINVAL, module_load 0 9)"
    using t0 h0 by blast
  have b: "simple_dev (snd (simplechar_init example_env (module_load 0 9))) = Null"
    using t0 h0 by blast
  have c: "simplechar_init example_env (module_load 16 9)
       = simplechar_init example_env (module_load 16 1)"
    using t16 h16 by blast
  have d: "simplechar_init example_env (module_load 16 9) =
              (0, \<lparr>buffer_size_param = 16,
                   debug_level = (if sint (9 :: c_int) < 0 \<or> 3 < sint (9 :: c_int) then 1 else 9),
                   simple_dev = Live (fresh_dev 16), major_number = chrdev_major example_env\<rparr>)"
    using t16 h16 k by blast
  have e: "fresh_dev 16 = \<lparr>buffer = replicate 16 0, buffer_len = 0, buffer_size = 16,
                                 open_count = 0, read_count = 0, write_count = 0\<rparr>"
    by (simp add: fresh_dev_def)
  have m: "chrdev_major example_env = 240"
    by (simp add: example_env_def)
  have a': "simplechar_init example_env (module_load 0 9) = (- 22, module_load 0 9)"
    using a by (simp add: EINVAL_def)
  have d': "simplechar_init example_env (module_load 16 9)
       = (0, \<lparr>buffer_size_param = 16, debug_level = 1,
              simple_dev = Live \<lparr>buffer = replicate 16 0, buffer_len = 0, buffer_size = 16,
                                 open_count = 0, read_count = 0, write_count = 0\<rparr>,
              major_number = 240\<rparr>)"
    using d by (simp add: e m)
  show ?thesis
    using h0 h16 k a' b c d' by blast
qed

text \<open>
  C10. Frame property of \<open>device_read\<close>. On every exit path (interrupted, end of data,
  copy fault, success) the buffer contents, the data length, the capacity, \<open>write_count\<close>
  and \<open>open_count\<close> are unchanged: the device after the call is the device before it with
  at most \<open>read_count\<close> replaced.
\<close>

theorem device_read_frame:
  "buffer (dev (device_read interrupted d ubuf len offset)) = buffer d
   \<and> buffer_len (dev (device_read interrupted d ubuf len offset)) = buffer_len d
   \<and> buffer_size (dev (device_read interrupted d ubuf len offset)) = buffer_size d
   \<and> write_count (dev (device_read interrupted d ubuf len offset)) = write_count d
   \<and> open_count (dev (device_read interrupted d ubuf len offset)) = open_count d
   \<and> dev (device_read interrupted d ubuf len offset)
       = d\<lparr>read_count := read_count (dev (device_read interrupted d ubuf len offset))\<rparr>"
  by (simp add: device_read_def Let_def split: prod.split)

end
